theory Spec2Isabelle
  imports Main
begin

section \<open>Package blades: parts, messages, prompts, generations\<close>

text \<open>
  Modelled from the spec: the declarations of the root package \<^verbatim>\<open>blades\<close> (Part, Message,
  Prompt, Generation, NewPrompt, StreamPipe) are not among the source files; only their
  uses in \<^verbatim>\<open>flow\<close> and in the provider adapters are. A content part is the tagged union
  {text; file-reference; opaque-data} of the data model; the adapters name the three
  variants \<^verbatim>\<open>TextPart{Text}\<close>, \<^verbatim>\<open>FilePart{URI}\<close> and \<^verbatim>\<open>DataPart{Bytes}\<close>.
\<close>

datatype Part = TextPart string | FilePart string | DataPart string

text \<open>
  Modelled from the spec: a message is a role-tagged list of content parts. The adapters
  convert the role with \<^verbatim>\<open>string(msg.Role)\<close>, so a role is a string and values outside
  {system, user, assistant} exist. \<^verbatim>\<open>Status\<close> is the third field the adapters set.
\<close>

datatype Status = StatusIncomplete | StatusCompleted

record Message =
  Role :: string
  Status :: Status
  Parts :: "Part list"

definition RoleUser :: string where "RoleUser = ''user''"
definition RoleAssistant :: string where "RoleAssistant = ''assistant''"
definition RoleSystem :: string where "RoleSystem = ''system''"

definition UserMessage :: "string \<Rightarrow> Message" where
  "UserMessage s = \<lparr>Role = RoleUser, Status = StatusCompleted, Parts = [TextPart s]\<rparr>"

definition AssistantMessage :: "string \<Rightarrow> Message" where
  "AssistantMessage s = \<lparr>Role = RoleAssistant, Status = StatusCompleted, Parts = [TextPart s]\<rparr>"

text \<open>
  Modelled from the spec: a ConversationState (\<^verbatim>\<open>*blades.Prompt\<close>) is an ordered sequence of
  messages, and \<^verbatim>\<open>NewPrompt\<close> builds a new state from the messages it is given and from
  nothing else.
\<close>

record Prompt =
  Messages :: "Message list"

definition NewPrompt :: "Message list \<Rightarrow> Prompt" where
  "NewPrompt msgs = \<lparr>Prompt.Messages = msgs\<rparr>"

text \<open>
  Modelled from the spec: a Generation is the resulting conversation state plus a derived
  view, \<^verbatim>\<open>Text()\<close>, the concatenated text of the newest assistant message. A
  \<^verbatim>\<open>*blades.Generation\<close> may be nil; it is a \<open>Generation option\<close> below, and reading
  \<^verbatim>\<open>.Messages\<close> or calling \<^verbatim>\<open>.Text()\<close> through a nil pointer is a panic of the caller.
\<close>

record Generation =
  Messages :: "Message list"

fun part_text :: "Part \<Rightarrow> string" where
  "part_text (TextPart t) = t"
| "part_text (FilePart u) = []"
| "part_text (DataPart b) = []"

definition MessageText :: "Message \<Rightarrow> string" where
  "MessageText m = concat (map part_text (Parts m))"

definition Text :: "Generation \<Rightarrow> string" where
  "Text g = (case filter (\<lambda>m. Role m = RoleAssistant) (rev (Generation.Messages g)) of
               [] \<Rightarrow> []
             | m # older \<Rightarrow> MessageText m)"

section \<open>contrib/zeus: building the provider request\<close>

record ModelRequest =
  Model :: string
  Messages :: "Message list"

text \<open>The \<^verbatim>\<open>*http.Client\<close> of the provider plays no part in the conversion and is left out.\<close>

record ChatProvider =
  apiKey :: string
  baseURL :: string
  pipelineID :: string

text \<open>
  One element of the \<^verbatim>\<open>messages\<close> slice is a \<^verbatim>\<open>map[string]string\<close> with exactly the keys
  \<^verbatim>\<open>"role"\<close> and \<^verbatim>\<open>"content"\<close>; the request is a map with exactly the keys
  \<^verbatim>\<open>"messages"\<close> and \<^verbatim>\<open>"pipeline_id"\<close>. Both are records of their two entries.
\<close>

record ZeusMessage =
  role :: string
  content :: string

record ZeusRequest =
  messages :: "ZeusMessage list"
  pipeline_id :: string

text \<open>The \<^verbatim>\<open>switch role\<close> of \<^verbatim>\<open>convertToZeusRequest\<close>, case by case.\<close>

definition zeus_role :: "string \<Rightarrow> string" where
  "zeus_role r =
     (if r = ''assistant'' then ''assistant''
      else if r = ''user'' then ''user''
      else if r = ''system'' then ''system''
      else ''user'')"

text \<open>
  The inner loop \<^verbatim>\<open>for _, part := range msg.Parts\<close>: the type assertion
  \<^verbatim>\<open>part.(blades.TextPart)\<close> succeeds on text parts only, and \<^verbatim>\<open>content += textPart.Text\<close>
  appends to the accumulator (the variable \<^verbatim>\<open>content\<close>, here \<open>txt\<close>).
\<close>

fun extract_content :: "string \<Rightarrow> Part list \<Rightarrow> string" where
  "extract_content txt [] = txt"
| "extract_content txt (TextPart t # parts) = extract_content (txt @ t) parts"
| "extract_content txt (FilePart u # parts) = extract_content txt parts"
| "extract_content txt (DataPart b # parts) = extract_content txt parts"

text \<open>
  The outer loop \<^verbatim>\<open>for _, msg := range req.Messages\<close>, with the slice \<^verbatim>\<open>messages\<close> as
  accumulator: a message is appended only \<^verbatim>\<open>if content != ""\<close>.
\<close>

fun convert_messages :: "ZeusMessage list \<Rightarrow> Message list \<Rightarrow> ZeusMessage list" where
  "convert_messages acc [] = acc"
| "convert_messages acc (msg # msgs) =
     (let r = zeus_role (Role msg);
          c = extract_content [] (Parts msg)
      in if c \<noteq> []
         then convert_messages (acc @ [\<lparr>role = r, content = c\<rparr>]) msgs
         else convert_messages acc msgs)"

definition convertToZeusRequest :: "ChatProvider \<Rightarrow> ModelRequest \<Rightarrow> ZeusRequest" where
  "convertToZeusRequest p req =
     \<lparr>messages = convert_messages [] (ModelRequest.Messages req),
      pipeline_id = pipelineID p\<rparr>"

section \<open>Package flow: the chain\<close>

subsection \<open>Steps, contexts and the record of invocations\<close>

text \<open>A Go \<^verbatim>\<open>error\<close> value; two errors are the same error iff they are equal.\<close>

datatype error = Err string

text \<open>
  A \<^verbatim>\<open>context.Context\<close> is a handle on state that its owner changes while the chain runs.
  The chain passes the same handle to every step. The model of the handle is the sequence
  of states it is in between the steps: \<open>ctx n\<close> is the state of the context once \<open>n\<close>
  step invocations of the run have completed and before the next one starts, and that is
  the state the next step finds when it is called.
\<close>

datatype ctx_state = Active | Canceled

type_synonym Context = "nat \<Rightarrow> ctx_state"

typedecl ModelOption

text \<open>
  A \<^verbatim>\<open>blades.Runner\<close> is an opaque effectful step
  \<^verbatim>\<open>Run(ctx, prompt, opts...) (*Generation, error)\<close>. Its effects are a change of the
  world \<open>'w\<close> outside the chain (provider, counters, clocks), which also may
  influence what it returns. Both return values are kept, each of them possibly nil.
\<close>

type_synonym 'w Runner =
  "ctx_state \<Rightarrow> Prompt \<Rightarrow> ModelOption list \<Rightarrow> 'w \<Rightarrow> (Generation option \<times> error option) \<times> 'w"

record 'w Chain =
  runners :: "'w Runner list"
  verbose :: bool

definition NewChain :: "'w Runner list \<Rightarrow> 'w Chain" where
  "NewChain rs = \<lparr>runners = rs, verbose = True\<rparr>"

definition NewChainSilent :: "'w Runner list \<Rightarrow> 'w Chain" where
  "NewChainSilent rs = \<lparr>runners = rs, verbose = False\<rparr>"

definition SetVerbose :: "bool \<Rightarrow> 'w Chain \<Rightarrow> 'w Chain" where
  "SetVerbose v c = c\<lparr>verbose := v\<rparr>"

text \<open>
  The invocation counter of a test harness: one entry per call of \<^verbatim>\<open>runner.Run\<close>, with the
  position of the runner in the chain (from 0), the state of the context at the call, the
  prompt passed and the pair returned.
\<close>

record Call =
  step_no :: nat
  ctx_seen :: ctx_state
  given :: Prompt
  returned :: "Generation option \<times> error option"

text \<open>A Go function either returns its values or panics (here: on a nil dereference).\<close>

datatype 'a outcome = Returns 'a | Panics

definition logged :: "Call \<Rightarrow> 'a \<times> Call list \<times> 'w \<Rightarrow> 'a \<times> Call list \<times> 'w" where
  "logged call r = (case r of (res, calls, w) \<Rightarrow> (res, call # calls, w))"

definition invocations :: "'a \<times> Call list \<times> 'w \<Rightarrow> Call list" where
  "invocations r = fst (snd r)"

subsection \<open>Blocking execution\<close>

text \<open>
  \<^verbatim>\<open>runSilent\<close>: the loop over \<^verbatim>\<open>c.runners\<close> with the variables \<^verbatim>\<open>prompt\<close> and \<^verbatim>\<open>last\<close>
  (here \<open>lastg\<close>).
  \<^verbatim>\<open>last.Messages\<close> dereferences \<^verbatim>\<open>last\<close>, which panics when a step returned
  \<^verbatim>\<open>(nil, nil)\<close>.
\<close>

fun runSilent_loop ::
  "Context \<Rightarrow> ModelOption list \<Rightarrow> nat \<Rightarrow> 'w Runner list \<Rightarrow> Prompt \<Rightarrow> Generation option \<Rightarrow> 'w
   \<Rightarrow> (Generation option \<times> error option) outcome \<times> Call list \<times> 'w" where
  "runSilent_loop ctx opts i [] prompt lastg w = (Returns (lastg, None), [], w)"
| "runSilent_loop ctx opts i (runner # rest) prompt lastg w =
     (case runner (ctx i) prompt opts w of
        ((lastg', err), w') \<Rightarrow>
          let call = \<lparr>step_no = i, ctx_seen = ctx i, given = prompt, returned = (lastg', err)\<rparr>
          in if err \<noteq> None then (Returns (None, err), [call], w')
             else (case lastg' of
                     None \<Rightarrow> (Panics, [call], w')
                   | Some g \<Rightarrow>
                       logged call
                         (runSilent_loop ctx opts (Suc i) rest
                            (NewPrompt (Generation.Messages g)) lastg' w')))"

definition runSilent ::
  "'w Chain \<Rightarrow> Context \<Rightarrow> Prompt \<Rightarrow> ModelOption list \<Rightarrow> 'w
   \<Rightarrow> (Generation option \<times> error option) outcome \<times> Call list \<times> 'w" where
  "runSilent c ctx prompt opts w = runSilent_loop ctx opts 0 (runners c) prompt None w"

text \<open>
  \<^verbatim>\<open>runVerbose\<close>: the same loop with the variables \<^verbatim>\<open>currentPrompt\<close> and \<^verbatim>\<open>finalResult\<close>.
  What it prints is written to the terminal only and is left out; the expressions it
  evaluates for printing are kept where they can fail: \<^verbatim>\<open>result.Text()\<close> in the loop
  and \<^verbatim>\<open>finalResult.Text()\<close> after it are calls through a pointer that may be nil. The
  prompt is a non-nil pointer, so \<^verbatim>\<open>prompt.String()\<close> returns; \<^verbatim>\<open>printProgressBar\<close> is
  called with \<open>1 \<le> current \<le> total\<close> only.
\<close>

fun runVerbose_loop ::
  "Context \<Rightarrow> ModelOption list \<Rightarrow> nat \<Rightarrow> 'w Runner list \<Rightarrow> Prompt \<Rightarrow> Generation option \<Rightarrow> 'w
   \<Rightarrow> (Generation option \<times> error option) outcome \<times> Call list \<times> 'w" where
  "runVerbose_loop ctx opts i [] currentPrompt finalResult w =
     (case finalResult of
        None \<Rightarrow> (Panics, [], w)
      | Some g \<Rightarrow> (let shown = Text g in (Returns (finalResult, None), [], w)))"
| "runVerbose_loop ctx opts i (runner # rest) currentPrompt finalResult w =
     (case runner (ctx i) currentPrompt opts w of
        ((result, err), w') \<Rightarrow>
          let call = \<lparr>step_no = i, ctx_seen = ctx i, given = currentPrompt,
                      returned = (result, err)\<rparr>
          in if err \<noteq> None then (Returns (None, err), [call], w')
             else (case result of
                     None \<Rightarrow> (Panics, [call], w')
                   | Some g \<Rightarrow>
                       (let shown = Text g
                        in logged call
                             (runVerbose_loop ctx opts (Suc i) rest
                                (NewPrompt (Generation.Messages g)) result w'))))"

definition runVerbose ::
  "'w Chain \<Rightarrow> Context \<Rightarrow> Prompt \<Rightarrow> ModelOption list \<Rightarrow> 'w
   \<Rightarrow> (Generation option \<times> error option) outcome \<times> Call list \<times> 'w" where
  "runVerbose c ctx prompt opts w = runVerbose_loop ctx opts 0 (runners c) prompt None w"

definition Run ::
  "'w Chain \<Rightarrow> Context \<Rightarrow> Prompt \<Rightarrow> ModelOption list \<Rightarrow> 'w
   \<Rightarrow> (Generation option \<times> error option) outcome \<times> Call list \<times> 'w" where
  "Run c ctx prompt opts w =
     (if \<not> verbose c then runSilent c ctx prompt opts w
      else runVerbose c ctx prompt opts w)"

subsection \<open>Streaming execution\<close>

text \<open>
  Modelled from the spec: \<^verbatim>\<open>blades.StreamPipe\<close> is not among the source files. The handle
  returned to the caller is a finite, forward-only sequence of values ended by one
  terminal event, completion or failure. The producer is the function given to
  \<^verbatim>\<open>pipe.Go\<close>: it runs as a task of its own, \<^verbatim>\<open>pipe.Send\<close> hands one value to the sequence,
  and the error the function returns is the terminal event. The model of the handle is
  everything its consumer reads from it by draining it: the values in the order of the
  hand-offs, and the terminal event. A producer that panics takes the process down.
\<close>

datatype terminal = Completed | Failed error | Crashed

record StreamPipe =
  sent :: "Generation option list"
  finish :: "terminal option"

definition NewStreamPipe :: StreamPipe where
  "NewStreamPipe = \<lparr>sent = [], finish = None\<rparr>"

definition Send :: "Generation option \<Rightarrow> StreamPipe \<Rightarrow> StreamPipe" where
  "Send v pipe = pipe\<lparr>sent := sent pipe @ [v]\<rparr>"

definition Go ::
  "(StreamPipe \<Rightarrow> 'w \<Rightarrow> (error option outcome \<times> StreamPipe) \<times> Call list \<times> 'w)
   \<Rightarrow> StreamPipe \<Rightarrow> 'w \<Rightarrow> StreamPipe \<times> Call list \<times> 'w" where
  "Go f pipe w =
     (case f pipe w of
        ((Returns None, pipe'), calls, w') \<Rightarrow> (pipe'\<lparr>finish := Some Completed\<rparr>, calls, w')
      | ((Returns (Some e), pipe'), calls, w') \<Rightarrow> (pipe'\<lparr>finish := Some (Failed e)\<rparr>, calls, w')
      | ((Panics, pipe'), calls, w') \<Rightarrow> (pipe'\<lparr>finish := Some Crashed\<rparr>, calls, w'))"

text \<open>
  The function literal of \<^verbatim>\<open>RunStream\<close>: the loop over \<^verbatim>\<open>c.runners\<close> with the captured
  variable \<^verbatim>\<open>prompt\<close>. \<^verbatim>\<open>pipe.Send(last)\<close> comes before \<^verbatim>\<open>last.Messages\<close>, so a nil
  generation is handed off before the dereference panics.
\<close>

fun RunStream_loop ::
  "Context \<Rightarrow> ModelOption list \<Rightarrow> nat \<Rightarrow> 'w Runner list \<Rightarrow> Prompt \<Rightarrow> StreamPipe \<Rightarrow> 'w
   \<Rightarrow> (error option outcome \<times> StreamPipe) \<times> Call list \<times> 'w" where
  "RunStream_loop ctx opts i [] prompt pipe w = ((Returns None, pipe), [], w)"
| "RunStream_loop ctx opts i (runner # rest) prompt pipe w =
     (case runner (ctx i) prompt opts w of
        ((lastg, err), w') \<Rightarrow>
          let call = \<lparr>step_no = i, ctx_seen = ctx i, given = prompt, returned = (lastg, err)\<rparr>
          in if err \<noteq> None then ((Returns err, pipe), [call], w')
             else (let pipe' = Send lastg pipe
                   in case lastg of
                        None \<Rightarrow> ((Panics, pipe'), [call], w')
                      | Some g \<Rightarrow>
                          logged call
                            (RunStream_loop ctx opts (Suc i) rest
                               (NewPrompt (Generation.Messages g)) pipe' w')))"

text \<open>
  \<^verbatim>\<open>RunStream\<close> returns \<^verbatim>\<open>pipe, nil\<close>: the handle and the error of the call itself.
\<close>

definition RunStream ::
  "'w Chain \<Rightarrow> Context \<Rightarrow> Prompt \<Rightarrow> ModelOption list \<Rightarrow> 'w
   \<Rightarrow> (StreamPipe option \<times> error option) \<times> Call list \<times> 'w" where
  "RunStream c ctx prompt opts w =
     (let pipe = NewStreamPipe
      in case Go (RunStream_loop ctx opts 0 (runners c) prompt) pipe w of
           (pipe', calls, w') \<Rightarrow> ((Some pipe', None), calls, w'))"

subsection \<open>The invocations of one sequential pass\<close>

text \<open>
  The three loops of the chain call the runners in the same way and differ in what they
  do with the results. \<open>pass\<close> is the sequence of calls they have in common: the runners
  in order, each on the prompt built from the generation before it, up to and including
  the first call that returns an error or a nil generation. It is not a function of the
  source; each loop is proved equal to \<open>pass\<close> with its own result below.
\<close>

text \<open>A call completed when it returned a nil error and a generation that is not nil.\<close>

definition completed :: "Call \<Rightarrow> bool" where
  "completed c = (snd (returned c) = None \<and> fst (returned c) \<noteq> None)"

fun pass ::
  "Context \<Rightarrow> ModelOption list \<Rightarrow> nat \<Rightarrow> 'w Runner list \<Rightarrow> Prompt \<Rightarrow> 'w \<Rightarrow> Call list \<times> 'w" where
  "pass ctx opts i [] prompt w = ([], w)"
| "pass ctx opts i (runner # rest) prompt w =
     (case runner (ctx i) prompt opts w of
        ((g, err), w') \<Rightarrow>
          let call = \<lparr>step_no = i, ctx_seen = ctx i, given = prompt, returned = (g, err)\<rparr>
          in if err \<noteq> None then ([call], w')
             else (case g of
                     None \<Rightarrow> ([call], w')
                   | Some gen \<Rightarrow>
                       (case pass ctx opts (Suc i) rest (NewPrompt (Generation.Messages gen)) w' of
                          (calls, w'') \<Rightarrow> (call # calls, w''))))"

text \<open>
  What each loop makes of the calls of its pass: the blocking loops return from the last
  call (or, with no call at all, \<^verbatim>\<open>last\<close> respectively \<^verbatim>\<open>finalResult.Text()\<close>); the
  producer returns the error of the last call; the values sent are the generations of
  the calls that returned no error.
\<close>

fun outcome_of :: "Generation option \<times> error option \<Rightarrow> (Generation option \<times> error option) outcome" where
  "outcome_of (g, Some e) = Returns (None, Some e)"
| "outcome_of (None, None) = Panics"
| "outcome_of (Some g, None) = Returns (Some g, None)"

definition silent_result :: "Generation option \<Rightarrow> Call list \<Rightarrow> (Generation option \<times> error option) outcome" where
  "silent_result lastg calls = (if calls = [] then Returns (lastg, None) else outcome_of (returned (last calls)))"

definition verbose_result :: "Generation option \<Rightarrow> Call list \<Rightarrow> (Generation option \<times> error option) outcome" where
  "verbose_result final calls =
     (if calls = [] then (case final of None \<Rightarrow> Panics | Some g \<Rightarrow> Returns (final, None))
      else outcome_of (returned (last calls)))"

fun producer_of :: "Generation option \<times> error option \<Rightarrow> error option outcome" where
  "producer_of (g, Some e) = Returns (Some e)"
| "producer_of (None, None) = Panics"
| "producer_of (Some g, None) = Returns None"

definition stream_result :: "Call list \<Rightarrow> error option outcome" where
  "stream_result calls = (if calls = [] then Returns None else producer_of (returned (last calls)))"

definition delivered :: "Call list \<Rightarrow> Generation option list" where
  "delivered calls = map (\<lambda>c. fst (returned c)) (filter (\<lambda>c. snd (returned c) = None) calls)"

text \<open>
  A step is a deterministic function of its input when what it returns is the same in
  every world: it depends on the context, the prompt and the options only.
\<close>

definition deterministic :: "'w Runner \<Rightarrow> bool" where
  "deterministic r = (\<forall>c p opts w w'. fst (r c p opts w) = fst (r c p opts w'))"

text \<open>The terminal event \<^verbatim>\<open>pipe.Go\<close> records for what the producer function did.\<close>

fun terminal_of :: "error option outcome \<Rightarrow> terminal" where
  "terminal_of (Returns None) = Completed"
| "terminal_of (Returns (Some e)) = Failed e"
| "terminal_of Panics = Crashed"

section \<open>A test harness\<close>

text \<open>
  The steps of the scenarios of the spec, in a world that counts the calls of
  \<^verbatim>\<open>runner.Run\<close>: a step that answers with one assistant message holding a function of
  the text of its input (upper case; an appended "!"), and a step that always fails with
  \<^verbatim>\<open>ErrProvider\<close>. \<open>background\<close> is a context that is never cancelled,
  \<open>cancel_after_first\<close> one that is cancelled between the first step and the second.
\<close>

definition input_text :: "Prompt \<Rightarrow> string" where
  "input_text p = concat (map MessageText (Prompt.Messages p))"

definition upper_char :: "char \<Rightarrow> char" where
  "upper_char c =
     (let n = (of_char c :: nat) in if 97 \<le> n \<and> n \<le> 122 then char_of (n - 32) else c)"

definition ToUpper :: "string \<Rightarrow> string" where
  "ToUpper s = map upper_char s"

definition exclaim :: "string \<Rightarrow> string" where
  "exclaim s = s @ ''!''"

definition text_generation :: "string \<Rightarrow> Generation" where
  "text_generation s = \<lparr>Generation.Messages = [AssistantMessage s]\<rparr>"

definition text_step :: "(string \<Rightarrow> string) \<Rightarrow> nat Runner" where
  "text_step f c p opts w = ((Some (text_generation (f (input_text p))), None), Suc w)"

definition step_upper :: "nat Runner" where
  "step_upper = text_step ToUpper"

definition step_exclaim :: "nat Runner" where
  "step_exclaim = text_step exclaim"

definition ErrProvider :: error where
  "ErrProvider = Err ''provider''"

definition step_fail :: "nat Runner" where
  "step_fail c p opts w = ((None, Some ErrProvider), Suc w)"

definition hello :: Prompt where
  "hello = NewPrompt [UserMessage ''hello'']"

definition background :: Context where
  "background n = Active"

definition cancel_after_first :: Context where
  "cancel_after_first n = (if n = 0 then Active else Canceled)"

definition scenario_chain :: "nat Chain" where
  "scenario_chain = NewChain [step_upper, step_exclaim]"

definition failing_chain :: "nat Chain" where
  "failing_chain = NewChain [step_upper, step_fail, step_exclaim]"

definition empty_chain :: "nat Chain" where
  "empty_chain = NewChain []"

section \<open>Example data for the Zeus adapter\<close>

definition example_provider :: ChatProvider where
  "example_provider = \<lparr>apiKey = ''key'', baseURL = ''https://api.zeusllm.com/v1'', pipelineID = ''p1''\<rparr>"

definition file_only_message :: Message where
  "file_only_message =
     \<lparr>Role = ''assistant'', Status = StatusCompleted, Parts = [FilePart ''a.png'', DataPart ''xyz'']\<rparr>"

definition example_request :: ModelRequest where
  "example_request =
     \<lparr>Model = ''m'',
      Messages =
        [\<lparr>Role = ''system'', Status = StatusCompleted, Parts = [TextPart ''be brief'']\<rparr>,
         \<lparr>Role = ''tool'', Status = StatusCompleted, Parts = [TextPart ''4'', FilePart ''f'', TextPart ''2'']\<rparr>,
         file_only_message,
         \<lparr>Role = ''user'', Status = StatusCompleted, Parts = [TextPart []]\<rparr>,
         \<lparr>Role = ''assistant'', Status = StatusIncomplete, Parts = [TextPart ''ok'']\<rparr>]\<rparr>"

section \<open>The Zeus request, proved\<close>

lemma extract_content_concat: "extract_content s ps = s @ concat (map part_text ps)"
  by (induction s ps rule: extract_content.induct) simp_all

lemma extract_content_MessageText: "extract_content [] (Parts m) = MessageText m"
  by (simp add: extract_content_concat MessageText_def)

lemma convert_messages_filter:
  "convert_messages acc msgs =
     acc @ map (\<lambda>m. \<lparr>role = zeus_role (Role m), content = MessageText m\<rparr>)
             (filter (\<lambda>m. MessageText m \<noteq> []) msgs)"
  by (induction msgs arbitrary: acc) (simp_all add: extract_content_MessageText Let_def)

lemma zeus_role_closed:
  "zeus_role r = (if r \<in> {''system'', ''user'', ''assistant''} then r else ''user'')"
  by (simp add: zeus_role_def)

text \<open>
  C8. In the request built by the Zeus adapter, the roles of the messages sent are, in
  order, the roles of the input messages that are sent (those with non-empty text), where
  a role inside {system, user, assistant} is kept unchanged and every role outside the
  set is replaced by "user".
\<close>

theorem zeus_roles_normalized:
  "map role (messages (convertToZeusRequest p req)) =
     map (\<lambda>m. if Role m \<in> {''system'', ''user'', ''assistant''} then Role m else ''user'')
       (filter (\<lambda>m. extract_content [] (Parts m) \<noteq> []) (ModelRequest.Messages req))"
  by (simp add: convertToZeusRequest_def convert_messages_filter extract_content_MessageText
      zeus_role_closed comp_def)

theorem zeus_roles_normalized_witness:
  "map role (messages (convertToZeusRequest example_provider example_request)) =
     [''system'', ''user'', ''assistant'']
   \<and> map Role (ModelRequest.Messages example_request) =
     [''system'', ''tool'', ''assistant'', ''user'', ''assistant'']"
  using zeus_roles_normalized [of example_provider example_request]
  by (simp add: example_request_def file_only_message_def)

text \<open>
  C9. The Zeus adapter omits every message whose concatenated text-part content is the
  empty string, and a message made of file-reference and opaque-data parts only is such a
  message; the messages of the request are exactly the input messages with non-empty
  text content, converted one by one, in their original order.
\<close>

theorem zeus_empty_messages_omitted:
  "messages (convertToZeusRequest p req) =
     map (\<lambda>m. \<lparr>role = zeus_role (Role m), content = MessageText m\<rparr>)
       (filter (\<lambda>m. MessageText m \<noteq> []) (ModelRequest.Messages req))
   \<and> (\<forall>m. (\<forall>part \<in> set (Parts m). \<forall>t. part \<noteq> TextPart t) \<longrightarrow> MessageText m = [])"
proof
  show "messages (convertToZeusRequest p req) =
     map (\<lambda>m. \<lparr>role = zeus_role (Role m), content = MessageText m\<rparr>)
       (filter (\<lambda>m. MessageText m \<noteq> []) (ModelRequest.Messages req))"
    by (simp add: convertToZeusRequest_def convert_messages_filter)
next
  have no_text: "(\<forall>part \<in> set ps. \<forall>t. part \<noteq> TextPart t) \<Longrightarrow> concat (map part_text ps) = []"
    for ps
  proof (induction ps)
    case Nil
    show ?case by simp
  next
    case (Cons a ps)
    then show ?case by (cases a) simp_all
  qed
  show "\<forall>m. (\<forall>part \<in> set (Parts m). \<forall>t. part \<noteq> TextPart t) \<longrightarrow> MessageText m = []"
    by (simp add: MessageText_def no_text)
qed

theorem zeus_empty_messages_omitted_witness:
  "map content (messages (convertToZeusRequest example_provider example_request)) =
     [''be brief'', ''42'', ''ok'']
   \<and> Parts file_only_message = [FilePart ''a.png'', DataPart ''xyz'']
   \<and> MessageText file_only_message = []"
proof -
  have parts: "\<forall>part \<in> set (Parts file_only_message). \<forall>t. part \<noteq> TextPart t"
    by (simp add: file_only_message_def)
  from zeus_empty_messages_omitted [of example_provider example_request]
  have sent: "messages (convertToZeusRequest example_provider example_request) =
     map (\<lambda>m. \<lparr>role = zeus_role (Role m), content = MessageText m\<rparr>)
       (filter (\<lambda>m. MessageText m \<noteq> []) (ModelRequest.Messages example_request))"
    and none: "\<forall>m. (\<forall>part \<in> set (Parts m). \<forall>t. part \<noteq> TextPart t) \<longrightarrow> MessageText m = []"
    by blast+
  from none parts have "MessageText file_only_message = []" by blast
  moreover have "map content (messages (convertToZeusRequest example_provider example_request)) =
     [''be brief'', ''42'', ''ok'']"
    unfolding sent by (simp add: example_request_def file_only_message_def MessageText_def)
  moreover have "Parts file_only_message = [FilePart ''a.png'', DataPart ''xyz'']"
    by (simp add: file_only_message_def)
  ultimately show ?thesis by blast
qed

section \<open>The loops and the pass\<close>

lemma runSilent_loop_pass:
  "runSilent_loop ctx opts i rs prompt lastg w =
     (silent_result lastg (fst (pass ctx opts i rs prompt w)),
      fst (pass ctx opts i rs prompt w), snd (pass ctx opts i rs prompt w))"
proof (induction rs arbitrary: i prompt lastg w)
  case Nil
  show ?case by (simp add: silent_result_def)
next
  case (Cons r rs)
  obtain g err w' where r: "r (ctx i) prompt opts w = ((g, err), w')"
    by (metis prod.exhaust)
  show ?case
  proof (cases err)
    case (Some e)
    with r show ?thesis by (simp add: silent_result_def)
  next
    case None
    note noerr = this
    show ?thesis
    proof (cases g)
      case None
      with r noerr show ?thesis by (simp add: silent_result_def)
    next
      case (Some gen)
      with r noerr Cons.IH [of "Suc i" "NewPrompt (Generation.Messages gen)" "Some gen" w']
      show ?thesis
        by (simp add: silent_result_def logged_def split: prod.splits)
    qed
  qed
qed

lemma runVerbose_loop_pass:
  "runVerbose_loop ctx opts i rs prompt final w =
     (verbose_result final (fst (pass ctx opts i rs prompt w)),
      fst (pass ctx opts i rs prompt w), snd (pass ctx opts i rs prompt w))"
proof (induction rs arbitrary: i prompt final w)
  case Nil
  show ?case by (simp add: verbose_result_def split: option.splits)
next
  case (Cons r rs)
  obtain g err w' where r: "r (ctx i) prompt opts w = ((g, err), w')"
    by (metis prod.exhaust)
  show ?case
  proof (cases err)
    case (Some e)
    with r show ?thesis by (simp add: verbose_result_def)
  next
    case None
    note noerr = this
    show ?thesis
    proof (cases g)
      case None
      with r noerr show ?thesis by (simp add: verbose_result_def)
    next
      case (Some gen)
      with r noerr Cons.IH [of "Suc i" "NewPrompt (Generation.Messages gen)" "Some gen" w']
      show ?thesis
        by (simp add: verbose_result_def logged_def split: prod.splits)
    qed
  qed
qed

lemma RunStream_loop_pass:
  "RunStream_loop ctx opts i rs prompt pipe w =
     ((stream_result (fst (pass ctx opts i rs prompt w)),
       pipe\<lparr>sent := sent pipe @ delivered (fst (pass ctx opts i rs prompt w))\<rparr>),
      fst (pass ctx opts i rs prompt w), snd (pass ctx opts i rs prompt w))"
proof (induction rs arbitrary: i prompt pipe w)
  case Nil
  show ?case by (simp add: stream_result_def delivered_def)
next
  case (Cons r rs)
  obtain g err w' where r: "r (ctx i) prompt opts w = ((g, err), w')"
    by (metis prod.exhaust)
  show ?case
  proof (cases err)
    case (Some e)
    with r show ?thesis by (simp add: stream_result_def delivered_def)
  next
    case None
    note noerr = this
    show ?thesis
    proof (cases g)
      case None
      with r noerr show ?thesis by (simp add: stream_result_def delivered_def Send_def)
    next
      case (Some gen)
      with r noerr Cons.IH [of "Suc i" "NewPrompt (Generation.Messages gen)" "Send (Some gen) pipe" w']
      show ?thesis
        by (simp add: stream_result_def delivered_def logged_def Send_def split: prod.splits)
    qed
  qed
qed

lemma pass_Cons_cases:
  obtains (stop) call w' where
      "pass ctx opts i (r # rs) p w = ([call], w')" "\<not> completed call"
      "call = \<lparr>step_no = i, ctx_seen = ctx i, given = p, returned = fst (r (ctx i) p opts w)\<rparr>"
  | (go) call gen w' where
      "pass ctx opts i (r # rs) p w =
         (call # fst (pass ctx opts (Suc i) rs (NewPrompt (Generation.Messages gen)) w'),
          snd (pass ctx opts (Suc i) rs (NewPrompt (Generation.Messages gen)) w'))"
      "returned call = (Some gen, None)" "completed call"
      "call = \<lparr>step_no = i, ctx_seen = ctx i, given = p, returned = fst (r (ctx i) p opts w)\<rparr>"
      "r (ctx i) p opts w = ((Some gen, None), w')"
proof -
  obtain g err w' where r: "r (ctx i) p opts w = ((g, err), w')"
    by (metis prod.exhaust)
  show thesis
  proof (cases "err = None \<and> g \<noteq> None")
    case False
    with r have "pass ctx opts i (r # rs) p w =
        ([\<lparr>step_no = i, ctx_seen = ctx i, given = p, returned = (g, err)\<rparr>], w')"
      by (auto simp: Let_def split: option.splits)
    moreover from False have "\<not> completed \<lparr>step_no = i, ctx_seen = ctx i, given = p, returned = (g, err)\<rparr>"
      by (auto simp: completed_def)
    moreover from r
    have "\<lparr>step_no = i, ctx_seen = ctx i, given = p, returned = (g, err)\<rparr>
        = \<lparr>step_no = i, ctx_seen = ctx i, given = p, returned = fst (r (ctx i) p opts w)\<rparr>"
      by simp
    ultimately show thesis by (rule stop)
  next
    case True
    then obtain gen where g: "g = Some gen" and e: "err = None" by auto
    with r have "pass ctx opts i (r # rs) p w =
         (\<lparr>step_no = i, ctx_seen = ctx i, given = p, returned = (Some gen, None)\<rparr>
            # fst (pass ctx opts (Suc i) rs (NewPrompt (Generation.Messages gen)) w'),
          snd (pass ctx opts (Suc i) rs (NewPrompt (Generation.Messages gen)) w'))"
      by (simp add: Let_def split: prod.splits)
    moreover have "returned \<lparr>step_no = i, ctx_seen = ctx i, given = p, returned = (Some gen, None)\<rparr>
        = (Some gen, None)" by simp
    moreover have "completed \<lparr>step_no = i, ctx_seen = ctx i, given = p, returned = (Some gen, None)\<rparr>"
      by (simp add: completed_def)
    moreover from r g e
    have "\<lparr>step_no = i, ctx_seen = ctx i, given = p, returned = (Some gen, None)\<rparr>
        = \<lparr>step_no = i, ctx_seen = ctx i, given = p, returned = fst (r (ctx i) p opts w)\<rparr>"
      by simp
    moreover from r g e have "r (ctx i) p opts w = ((Some gen, None), w')" by simp
    ultimately show thesis by (rule go)
  qed
qed

declare pass.simps(2) [simp del]

lemma upt_shift: "[i ..< Suc (i + n)] = i # [Suc i ..< Suc (i + n)]"
  by (simp add: upt_conv_Cons del: upt_Suc)

lemma pass_length: "length (fst (pass ctx opts i rs p w)) \<le> length rs"
proof (induction rs arbitrary: i p w)
  case Nil
  show ?case by simp
next
  case (Cons r rs)
  show ?case
  proof (cases rule: pass_Cons_cases [of ctx opts i r rs p w])
    case (stop call w')
    then show ?thesis by simp
  next
    case (go call gen w')
    with Cons.IH [of "Suc i" "NewPrompt (Generation.Messages gen)" w'] show ?thesis by simp
  qed
qed

lemma pass_nonempty: "rs \<noteq> [] \<Longrightarrow> fst (pass ctx opts i rs p w) \<noteq> []"
proof (cases rs)
  case Nil
  assume "rs \<noteq> []"
  with Nil show ?thesis by simp
next
  case (Cons r rs')
  show ?thesis unfolding Cons
    by (cases rule: pass_Cons_cases [of ctx opts i r rs' p w]) simp_all
qed

lemma pass_step_no:
  "map step_no (fst (pass ctx opts i rs p w)) = [i ..< i + length (fst (pass ctx opts i rs p w))]"
proof (induction rs arbitrary: i p w)
  case Nil
  show ?case by simp
next
  case (Cons r rs)
  show ?case
  proof (cases rule: pass_Cons_cases [of ctx opts i r rs p w])
    case (stop call w')
    then show ?thesis by simp
  next
    case (go call gen w')
    with Cons.IH [of "Suc i" "NewPrompt (Generation.Messages gen)" w'] show ?thesis
      by (simp add: upt_shift del: upt_Suc)
  qed
qed

lemma pass_ctx_seen:
  "map ctx_seen (fst (pass ctx opts i rs p w)) = map ctx [i ..< i + length (fst (pass ctx opts i rs p w))]"
proof (induction rs arbitrary: i p w)
  case Nil
  show ?case by simp
next
  case (Cons r rs)
  show ?case
  proof (cases rule: pass_Cons_cases [of ctx opts i r rs p w])
    case (stop call w')
    then show ?thesis by simp
  next
    case (go call gen w')
    with Cons.IH [of "Suc i" "NewPrompt (Generation.Messages gen)" w'] show ?thesis
      by (simp add: upt_shift del: upt_Suc)
  qed
qed

lemma pass_first_given:
  "fst (pass ctx opts i rs p w) \<noteq> [] \<Longrightarrow> given (hd (fst (pass ctx opts i rs p w))) = p"
proof (cases rs)
  case Nil
  assume "fst (pass ctx opts i rs p w) \<noteq> []"
  with Nil show ?thesis by simp
next
  case (Cons r rs')
  show ?thesis unfolding Cons
    by (cases rule: pass_Cons_cases [of ctx opts i r rs' p w]) simp_all
qed

lemma pass_completed:
  "Suc j < length (fst (pass ctx opts i rs p w)) \<Longrightarrow> completed (fst (pass ctx opts i rs p w) ! j)"
proof (induction rs arbitrary: i p w j)
  case Nil
  then show ?case by simp
next
  case (Cons r rs)
  show ?case
  proof (cases rule: pass_Cons_cases [of ctx opts i r rs p w])
    case (stop call w')
    with Cons.prems show ?thesis by simp
  next
    case (go call gen w')
    show ?thesis
    proof (cases j)
      case 0
      with go show ?thesis by simp
    next
      case (Suc j')
      with go Cons.prems Cons.IH [of j' "Suc i" "NewPrompt (Generation.Messages gen)" w']
      show ?thesis by simp
    qed
  qed
qed

lemma pass_chained:
  "Suc j < length (fst (pass ctx opts i rs p w)) \<Longrightarrow>
   \<exists>g. returned (fst (pass ctx opts i rs p w) ! j) = (Some g, None) \<and>
       given (fst (pass ctx opts i rs p w) ! Suc j) = NewPrompt (Generation.Messages g)"
proof (induction rs arbitrary: i p w j)
  case Nil
  then show ?case by simp
next
  case (Cons r rs)
  show ?case
  proof (cases rule: pass_Cons_cases [of ctx opts i r rs p w])
    case (stop call w')
    with Cons.prems show ?thesis by simp
  next
    case (go call gen w')
    show ?thesis
    proof (cases j)
      case 0
      from go Cons.prems 0
      have ne: "fst (pass ctx opts (Suc i) rs (NewPrompt (Generation.Messages gen)) w') \<noteq> []"
        by auto
      from pass_first_given [OF ne] go 0 ne show ?thesis
        by (simp add: hd_conv_nth)
    next
      case (Suc j')
      with go Cons.prems Cons.IH [of j' "Suc i" "NewPrompt (Generation.Messages gen)" w']
      show ?thesis by simp
    qed
  qed
qed

lemma pass_stops_early:
  "length (fst (pass ctx opts i rs p w)) < length rs \<Longrightarrow>
   fst (pass ctx opts i rs p w) \<noteq> [] \<and> \<not> completed (last (fst (pass ctx opts i rs p w)))"
proof (induction rs arbitrary: i p w)
  case Nil
  then show ?case by simp
next
  case (Cons r rs)
  show ?case
  proof (cases rule: pass_Cons_cases [of ctx opts i r rs p w])
    case (stop call w')
    then show ?thesis by simp
  next
    case (go call gen w')
    with Cons.prems Cons.IH [of "Suc i" "NewPrompt (Generation.Messages gen)" w']
    show ?thesis by simp
  qed
qed

lemma pass_deterministic:
  "\<forall>r \<in> set rs. deterministic r \<Longrightarrow>
   fst (pass ctx opts i rs p w1) = fst (pass ctx opts i rs p w2)"
proof (induction rs arbitrary: i p w1 w2)
  case Nil
  show ?case by simp
next
  case (Cons r rs)
  from Cons.prems have det: "fst (r (ctx i) p opts w1) = fst (r (ctx i) p opts w2)"
    by (simp add: deterministic_def)
  from Cons.prems have rest: "\<forall>r \<in> set rs. deterministic r" by simp
  show ?case
  proof (cases rule: pass_Cons_cases [of ctx opts i r rs p w1])
    case (stop call w')
    note s1 = this
    show ?thesis
    proof (cases rule: pass_Cons_cases [of ctx opts i r rs p w2])
      case (stop call2 w2')
      with s1 det show ?thesis by simp
    next
      case (go call2 gen w2')
      with s1 det show ?thesis by simp
    qed
  next
    case (go call gen w')
    note g1 = this
    show ?thesis
    proof (cases rule: pass_Cons_cases [of ctx opts i r rs p w2])
      case (stop call2 w2')
      with g1 det show ?thesis by simp
    next
      case (go call2 gen2 w2')
      with g1 det have "gen2 = gen" by simp
      with go g1 det Cons.IH [OF rest, of "Suc i" "NewPrompt (Generation.Messages gen)" w' w2']
      show ?thesis by simp
    qed
  qed
qed

lemma pass_calls_are_runs:
  "j < length (fst (pass ctx opts i rs p w)) \<Longrightarrow>
   \<exists>w0. returned (fst (pass ctx opts i rs p w) ! j) =
     fst ((rs ! j) (ctx (i + j)) (given (fst (pass ctx opts i rs p w) ! j)) opts w0)"
proof (induction rs arbitrary: i p w j)
  case Nil
  then show ?case by simp
next
  case (Cons r rs)
  show ?case
  proof (cases rule: pass_Cons_cases [of ctx opts i r rs p w])
    case (stop call w')
    with Cons.prems show ?thesis by auto
  next
    case (go call gen w')
    show ?thesis
    proof (cases j)
      case 0
      from go have "returned call = fst (r (ctx i) p opts w)" by simp
      with go 0 show ?thesis by (intro exI [of _ w]) simp
    next
      case (Suc j')
      with go Cons.prems Cons.IH [of j' "Suc i" "NewPrompt (Generation.Messages gen)" w']
      show ?thesis by simp
    qed
  qed
qed

section \<open>Results of the three executions\<close>

lemma Go_terminal:
  "Go f pipe w =
     (snd (fst (f pipe w))\<lparr>finish := Some (terminal_of (fst (fst (f pipe w))))\<rparr>,
      fst (snd (f pipe w)), snd (snd (f pipe w)))"
proof -
  obtain res pipe' calls w' where f: "f pipe w = ((res, pipe'), calls, w')"
    by (metis prod.exhaust)
  show ?thesis
  proof (cases res)
    case (Returns err)
    with f show ?thesis by (cases err) (simp_all add: Go_def)
  next
    case Panics
    with f show ?thesis by (simp add: Go_def)
  qed
qed

lemma runSilent_pass:
  "runSilent c ctx p opts w =
     (silent_result None (fst (pass ctx opts 0 (runners c) p w)),
      fst (pass ctx opts 0 (runners c) p w), snd (pass ctx opts 0 (runners c) p w))"
  by (simp add: runSilent_def runSilent_loop_pass)

lemma runVerbose_pass:
  "runVerbose c ctx p opts w =
     (verbose_result None (fst (pass ctx opts 0 (runners c) p w)),
      fst (pass ctx opts 0 (runners c) p w), snd (pass ctx opts 0 (runners c) p w))"
  by (simp add: runVerbose_def runVerbose_loop_pass)

lemma Run_pass:
  "Run c ctx p opts w =
     ((if verbose c then verbose_result None (fst (pass ctx opts 0 (runners c) p w))
       else silent_result None (fst (pass ctx opts 0 (runners c) p w))),
      fst (pass ctx opts 0 (runners c) p w), snd (pass ctx opts 0 (runners c) p w))"
  by (simp add: Run_def runSilent_pass runVerbose_pass)

lemma RunStream_pass:
  "RunStream c ctx p opts w =
     ((Some \<lparr>sent = delivered (fst (pass ctx opts 0 (runners c) p w)),
             finish = Some (terminal_of (stream_result (fst (pass ctx opts 0 (runners c) p w))))\<rparr>,
       None),
      fst (pass ctx opts 0 (runners c) p w), snd (pass ctx opts 0 (runners c) p w))"
  by (simp add: RunStream_def Go_terminal RunStream_loop_pass NewStreamPipe_def)

lemma blocking_result_nonempty:
  "calls \<noteq> [] \<Longrightarrow> silent_result None calls = outcome_of (returned (last calls))"
  "calls \<noteq> [] \<Longrightarrow> verbose_result None calls = outcome_of (returned (last calls))"
  by (simp_all add: silent_result_def verbose_result_def)

lemma delivered_snoc:
  "delivered (xs @ [c]) =
     (if snd (returned c) = None then delivered xs @ [fst (returned c)] else delivered xs)"
  by (simp add: delivered_def)

lemma delivered_all_completed:
  "\<forall>c \<in> set calls. completed c \<Longrightarrow> delivered calls = map (\<lambda>c. fst (returned c)) calls"
  by (induction calls) (simp_all add: delivered_def completed_def)

lemma take_all_completed:
  assumes "k \<le> length calls" "\<forall>j<k. completed (calls ! j)"
  shows "\<forall>c \<in> set (take k calls). completed c"
proof
  fix c assume "c \<in> set (take k calls)"
  then obtain j where "j < length (take k calls)" "c = take k calls ! j"
    by (auto simp: in_set_conv_nth)
  with assms show "completed c" by simp
qed

lemma delivered_append: "delivered (xs @ ys) = delivered xs @ delivered ys"
  by (simp add: delivered_def)

text \<open>A call that returned an error is the last call of the pass.\<close>
lemma pass_error_is_last:
  assumes "k < length (fst (pass ctx opts i rs p w))"
    and "snd (returned (fst (pass ctx opts i rs p w) ! k)) = Some e"
  shows "length (fst (pass ctx opts i rs p w)) = Suc k"
proof (rule ccontr)
  assume "length (fst (pass ctx opts i rs p w)) \<noteq> Suc k"
  with assms(1) have "Suc k < length (fst (pass ctx opts i rs p w))" by simp
  from pass_completed [OF this] assms(2) show False by (simp add: completed_def)
qed

lemma outcome_of_error: "snd r = Some e \<Longrightarrow> outcome_of r = Returns (None, Some e)"
  by (cases r) simp

lemma producer_of_error: "snd r = Some e \<Longrightarrow> producer_of r = Returns (Some e)"
  by (cases r) simp

lemma outcome_of_value:
  "outcome_of r = Returns (Some g, None) \<longleftrightarrow> r = (Some g, None)"
  by (cases r rule: outcome_of.cases) simp_all

lemma producer_of_done:
  "producer_of r = Returns None \<longleftrightarrow> (\<exists>g. r = (Some g, None))"
  by (cases r rule: producer_of.cases) simp_all

lemma last_of_length: "length xs = Suc k \<Longrightarrow> xs \<noteq> [] \<and> last xs = xs ! k"
  by (cases xs rule: rev_cases) (auto simp: nth_append)

section \<open>The harness, evaluated\<close>

lemma ToUpper_hello: "ToUpper ''hello'' = ''HELLO''"
  by code_simp

lemma input_text_hello: "input_text hello = ''hello''"
  by (simp add: input_text_def hello_def NewPrompt_def UserMessage_def MessageText_def)

lemma input_text_generation:
  "input_text (NewPrompt (Generation.Messages (text_generation s))) = s"
  by (simp add: input_text_def NewPrompt_def text_generation_def AssistantMessage_def
      MessageText_def)

lemma Text_text_generation: "Text (text_generation s) = s"
  by (simp add: Text_def text_generation_def AssistantMessage_def MessageText_def)

lemma step_upper_hello:
  "step_upper c hello opts w = ((Some (text_generation ''HELLO''), None), Suc w)"
  by (simp add: step_upper_def text_step_def input_text_hello ToUpper_hello)

lemma step_exclaim_generation:
  "step_exclaim c (NewPrompt (Generation.Messages (text_generation s))) opts w =
     ((Some (text_generation (s @ ''!'')), None), Suc w)"
  by (simp add: step_exclaim_def text_step_def input_text_generation exclaim_def)

lemma scenario_runVerbose:
  "runVerbose scenario_chain ctx hello opts w =
     (Returns (Some (text_generation ''HELLO!''), None),
      [\<lparr>step_no = 0, ctx_seen = ctx 0, given = hello,
         returned = (Some (text_generation ''HELLO''), None)\<rparr>,
       \<lparr>step_no = Suc 0, ctx_seen = ctx (Suc 0),
         given = NewPrompt (Generation.Messages (text_generation ''HELLO'')),
         returned = (Some (text_generation ''HELLO!''), None)\<rparr>],
      Suc (Suc w))"
  by (simp add: runVerbose_def scenario_chain_def NewChain_def step_upper_hello
      step_exclaim_generation logged_def)

lemma scenario_runSilent:
  "runSilent scenario_chain ctx hello opts w =
     (Returns (Some (text_generation ''HELLO!''), None),
      [\<lparr>step_no = 0, ctx_seen = ctx 0, given = hello,
         returned = (Some (text_generation ''HELLO''), None)\<rparr>,
       \<lparr>step_no = Suc 0, ctx_seen = ctx (Suc 0),
         given = NewPrompt (Generation.Messages (text_generation ''HELLO'')),
         returned = (Some (text_generation ''HELLO!''), None)\<rparr>],
      Suc (Suc w))"
  by (simp add: runSilent_def scenario_chain_def NewChain_def step_upper_hello
      step_exclaim_generation logged_def)

lemma scenario_RunStream:
  "RunStream scenario_chain ctx hello opts w =
     ((Some \<lparr>sent = [Some (text_generation ''HELLO''), Some (text_generation ''HELLO!'')],
             finish = Some Completed\<rparr>, None),
      [\<lparr>step_no = 0, ctx_seen = ctx 0, given = hello,
         returned = (Some (text_generation ''HELLO''), None)\<rparr>,
       \<lparr>step_no = Suc 0, ctx_seen = ctx (Suc 0),
         given = NewPrompt (Generation.Messages (text_generation ''HELLO'')),
         returned = (Some (text_generation ''HELLO!''), None)\<rparr>],
      Suc (Suc w))"
  by (simp add: RunStream_def Go_def NewStreamPipe_def Send_def scenario_chain_def NewChain_def
      step_upper_hello step_exclaim_generation logged_def)

lemma failing_runVerbose:
  "runVerbose failing_chain ctx hello opts w =
     (Returns (None, Some ErrProvider),
      [\<lparr>step_no = 0, ctx_seen = ctx 0, given = hello,
         returned = (Some (text_generation ''HELLO''), None)\<rparr>,
       \<lparr>step_no = Suc 0, ctx_seen = ctx (Suc 0),
         given = NewPrompt (Generation.Messages (text_generation ''HELLO'')),
         returned = (None, Some ErrProvider)\<rparr>],
      Suc (Suc w))"
  by (simp add: runVerbose_def failing_chain_def NewChain_def step_upper_hello
      step_fail_def logged_def)

lemma failing_RunStream:
  "RunStream failing_chain ctx hello opts w =
     ((Some \<lparr>sent = [Some (text_generation ''HELLO'')],
             finish = Some (Failed ErrProvider)\<rparr>, None),
      [\<lparr>step_no = 0, ctx_seen = ctx 0, given = hello,
         returned = (Some (text_generation ''HELLO''), None)\<rparr>,
       \<lparr>step_no = Suc 0, ctx_seen = ctx (Suc 0),
         given = NewPrompt (Generation.Messages (text_generation ''HELLO'')),
         returned = (None, Some ErrProvider)\<rparr>],
      Suc (Suc w))"
  by (simp add: RunStream_def Go_def NewStreamPipe_def Send_def failing_chain_def NewChain_def
      step_upper_hello step_fail_def logged_def)

lemma harness_deterministic:
  "deterministic (text_step f)" "deterministic step_fail"
  by (simp_all add: deterministic_def text_step_def step_fail_def)

lemma verbose_harness [simp]:
  "verbose scenario_chain" "verbose failing_chain"
  by (simp_all add: scenario_chain_def failing_chain_def NewChain_def)

section \<open>The claims about the chain\<close>

text \<open>
  C1. Whenever a step of the chain returns an error (the call at position \<open>k\<close> of the
  record of invocations, positions counted from 0), blocking execution returns exactly
  that error together with a nil generation, and that call is the last one: the steps
  called are the steps \<open>0..k\<close> in order, and no later step is invoked. This holds for
  \<^verbatim>\<open>runSilent\<close>, for \<^verbatim>\<open>runVerbose\<close> and for \<^verbatim>\<open>Run\<close>, which is one of the two.
\<close>

theorem abort_on_failure:
  assumes run: "runSilent c ctx prompt opts w = (res, calls, w')
              \<or> runVerbose c ctx prompt opts w = (res, calls, w')
              \<or> Run c ctx prompt opts w = (res, calls, w')"
    and k: "k < length calls"
    and failed: "snd (returned (calls ! k)) = Some e"
  shows "res = Returns (None, Some e) \<and> length calls = Suc k \<and> map step_no calls = [0..<Suc k]"
proof -
  let ?calls = "fst (pass ctx opts 0 (runners c) prompt w)"
  from run have calls: "calls = ?calls"
    by (auto simp: runSilent_pass runVerbose_pass Run_pass)
  from run have res: "res = silent_result None calls \<or> res = verbose_result None calls"
    by (auto simp: runSilent_pass runVerbose_pass Run_pass)
  from k failed have len: "length calls = Suc k"
    unfolding calls by (rule pass_error_is_last)
  then have ne: "calls \<noteq> []" by auto
  from len have "last calls = calls ! k"
    by (simp add: last_conv_nth ne)
  with failed have "outcome_of (returned (last calls)) = Returns (None, Some e)"
    by (simp add: outcome_of_error)
  with res ne have "res = Returns (None, Some e)"
    by (auto simp: blocking_result_nonempty)
  moreover from pass_step_no [of ctx opts 0 "runners c" prompt w] len
  have "map step_no calls = [0..<Suc k]"
    unfolding calls by simp
  ultimately show ?thesis using len by simp
qed

theorem abort_on_failure_witness:
  "fst (runVerbose failing_chain background hello [] 0) = Returns (None, Some ErrProvider)
   \<and> map step_no (invocations (runVerbose failing_chain background hello [] 0)) = [0, 1]
   \<and> length (runners failing_chain) = 3"
proof -
  let ?c0 = "\<lparr>step_no = 0, ctx_seen = background 0, given = hello,
               returned = (Some (text_generation ''HELLO''), None)\<rparr>"
  let ?c1 = "\<lparr>step_no = Suc 0, ctx_seen = background (Suc 0),
               given = NewPrompt (Generation.Messages (text_generation ''HELLO'')),
               returned = (None, Some ErrProvider)\<rparr>"
  have run: "runSilent failing_chain background hello [] 0
        = (Returns (None, Some ErrProvider), [?c0, ?c1], Suc (Suc 0))
      \<or> runVerbose failing_chain background hello [] 0
        = (Returns (None, Some ErrProvider), [?c0, ?c1], Suc (Suc 0))
      \<or> Run failing_chain background hello [] 0
        = (Returns (None, Some ErrProvider), [?c0, ?c1], Suc (Suc 0))"
    by (simp add: failing_runVerbose)
  have k: "Suc 0 < length [?c0, ?c1]" by simp
  have failed: "snd (returned ([?c0, ?c1] ! Suc 0)) = Some ErrProvider" by simp
  have "length (runners failing_chain) = 3"
    by (simp add: failing_chain_def NewChain_def)
  moreover from abort_on_failure [OF run k failed]
  have "fst (runVerbose failing_chain background hello [] 0) = Returns (None, Some ErrProvider)
      \<and> map step_no (invocations (runVerbose failing_chain background hello [] 0)) = [0, 1]"
    by (simp add: failing_runVerbose invocations_def)
  ultimately show ?thesis by blast
qed

text \<open>
  C2. In every execution of a chain, blocking (silent or verbose) or streaming, the first
  step is called on the prompt of the caller, and the prompt passed to each later step
  is \<^verbatim>\<open>NewPrompt\<close> applied to the messages of the generation the step before it
  returned: a function of those messages alone, in which the prompt of the caller does
  not occur.
\<close>

theorem next_prompt_from_previous_generation:
  assumes run: "calls = invocations (Run c ctx prompt opts w)
              \<or> calls = invocations (RunStream c ctx prompt opts w)"
    and i: "Suc i < length calls"
  shows "given (calls ! 0) = prompt
       \<and> (\<exists>g. returned (calls ! i) = (Some g, None)
              \<and> given (calls ! Suc i) = NewPrompt (Generation.Messages g))"
proof -
  from run have calls: "calls = fst (pass ctx opts 0 (runners c) prompt w)"
    by (auto simp: invocations_def Run_pass RunStream_pass)
  from i have ne: "calls \<noteq> []" by auto
  with pass_first_given [of ctx opts 0 "runners c" prompt w]
  have "given (calls ! 0) = prompt"
    unfolding calls by (simp add: hd_conv_nth)
  moreover from i pass_chained [of i ctx opts 0 "runners c" prompt w]
  have "\<exists>g. returned (calls ! i) = (Some g, None)
           \<and> given (calls ! Suc i) = NewPrompt (Generation.Messages g)"
    unfolding calls by simp
  ultimately show ?thesis by simp
qed

theorem next_prompt_from_previous_generation_witness:
  "given (invocations (RunStream scenario_chain background hello [] 0) ! 0) = hello
   \<and> returned (invocations (RunStream scenario_chain background hello [] 0) ! 0)
       = (Some (text_generation ''HELLO''), None)
   \<and> given (invocations (RunStream scenario_chain background hello [] 0) ! 1)
       = NewPrompt (Generation.Messages (text_generation ''HELLO''))"
  using next_prompt_from_previous_generation
    [of "invocations (RunStream scenario_chain background hello [] 0)"
        scenario_chain background hello "[]" 0 0]
  by (simp add: scenario_RunStream invocations_def)

text \<open>
  C3. For a chain whose steps are deterministic functions of their input (their results
  do not depend on the world they run in), blocking \<^verbatim>\<open>Run\<close> returns the generation
  \<open>g\<close> exactly when the sequence of \<^verbatim>\<open>RunStream\<close>, over the same context, prompt and
  options, completes and its last value is \<open>g\<close>; the two runs may start in different
  worlds.
\<close>

theorem modes_agree:
  assumes det: "\<forall>r \<in> set (runners c). deterministic r"
    and stream: "fst (RunStream c ctx prompt opts w2) = (Some pipe, e)"
  shows "fst (Run c ctx prompt opts w1) = Returns (Some g, None)
         \<longleftrightarrow> finish pipe = Some Completed \<and> sent pipe \<noteq> [] \<and> last (sent pipe) = Some g"
proof -
  let ?calls = "fst (pass ctx opts 0 (runners c) prompt w1)"
  from det have same: "fst (pass ctx opts 0 (runners c) prompt w2) = ?calls"
    by (rule pass_deterministic)
  from stream have pipe: "pipe = \<lparr>sent = delivered ?calls,
      finish = Some (terminal_of (stream_result ?calls))\<rparr>"
    by (simp add: RunStream_pass same)
  show ?thesis
  proof (cases "?calls = []")
    case True
    then show ?thesis
      by (simp add: pipe Run_pass delivered_def silent_result_def verbose_result_def)
  next
    case False
    then obtain xs x where snoc: "?calls = xs @ [x]"
      by (metis rev_exhaust)
    obtain a b where x: "returned x = (a, b)" by (cases "returned x")
    have run: "fst (Run c ctx prompt opts w1) = outcome_of (returned x)"
      using False snoc by (simp add: Run_pass blocking_result_nonempty)
    have fin: "finish pipe = Some (terminal_of (producer_of (returned x)))"
      using False snoc by (simp add: pipe stream_result_def)
    have sent: "sent pipe = (if b = None then delivered xs @ [a] else delivered xs)"
      using snoc x by (simp add: pipe delivered_snoc)
    show ?thesis
    proof (cases b)
      case (Some err)
      with x run fin show ?thesis by simp
    next
      case None
      note b = this
      show ?thesis
      proof (cases a)
        case None
        with b x run fin show ?thesis by simp
      next
        case (Some g')
        with b x run fin sent show ?thesis by auto
      qed
    qed
  qed
qed

theorem modes_agree_witness:
  "fst (Run scenario_chain background hello [] 0) = Returns (Some (text_generation ''HELLO!''), None)
   \<and> last [Some (text_generation ''HELLO''), Some (text_generation ''HELLO!'')]
       = Some (text_generation ''HELLO!'')"
proof -
  have det: "\<forall>r \<in> set (runners scenario_chain). deterministic r"
    by (simp add: scenario_chain_def NewChain_def step_upper_def step_exclaim_def
        harness_deterministic)
  have stream: "fst (RunStream scenario_chain background hello [] 7) =
      (Some \<lparr>sent = [Some (text_generation ''HELLO''), Some (text_generation ''HELLO!'')],
             finish = Some Completed\<rparr>, None)"
    by (simp add: scenario_RunStream)
  from modes_agree [OF det stream, of 0 "text_generation ''HELLO!''"]
  show ?thesis by simp
qed

text \<open>
  C4. \<^verbatim>\<open>RunStream\<close> delivers one value per call that returned without error, in the order
  of the calls, and the calls are the steps \<open>0, 1, ...\<close> in order, each once. When every
  step called completes, all \<open>N\<close> steps are called, \<open>N\<close> values are delivered and the
  sequence completes. When the call at position \<open>k\<close> returns an error, it is the last
  call, the \<open>k\<close> steps before it completed, exactly their \<open>k\<close> values are delivered
  and the terminal event is that error.
\<close>

theorem stream_order:
  assumes stream: "RunStream c ctx prompt opts w = ((Some pipe, e0), calls, w')"
  shows "sent pipe = map (\<lambda>c. fst (returned c)) (filter (\<lambda>c. snd (returned c) = None) calls)
       \<and> map step_no calls = [0..<length calls]
       \<and> length calls \<le> length (runners c)
       \<and> ((\<forall>c \<in> set calls. completed c) \<longrightarrow>
            length calls = length (runners c)
            \<and> sent pipe = map (\<lambda>c. fst (returned c)) calls
            \<and> finish pipe = Some Completed)
       \<and> (\<forall>k e. k < length calls \<and> snd (returned (calls ! k)) = Some e \<longrightarrow>
            length calls = Suc k
            \<and> (\<forall>j<k. completed (calls ! j))
            \<and> sent pipe = map (\<lambda>c. fst (returned c)) (take k calls)
            \<and> finish pipe = Some (Failed e))"
proof -
  let ?calls = "fst (pass ctx opts 0 (runners c) prompt w)"
  from stream have calls: "calls = ?calls"
    by (simp add: RunStream_pass)
  from stream have pipe: "pipe = \<lparr>sent = delivered calls,
      finish = Some (terminal_of (stream_result calls))\<rparr>"
    by (auto simp: RunStream_pass)
  have one: "sent pipe = map (\<lambda>c. fst (returned c)) (filter (\<lambda>c. snd (returned c) = None) calls)"
    by (simp add: pipe delivered_def)
  have two: "map step_no calls = [0..<length calls]"
    unfolding calls using pass_step_no [of ctx opts 0 "runners c" prompt w] by simp
  have three: "length calls \<le> length (runners c)"
    unfolding calls by (rule pass_length)
  have four: "length calls = length (runners c)
            \<and> sent pipe = map (\<lambda>c. fst (returned c)) calls
            \<and> finish pipe = Some Completed" if all: "\<forall>c \<in> set calls. completed c"
  proof -
    have len: "length calls = length (runners c)"
    proof (rule ccontr)
      assume "length calls \<noteq> length (runners c)"
      with three have "length calls < length (runners c)" by simp
      from pass_stops_early [OF this [unfolded calls]] all
      show False unfolding calls by auto
    qed
    have "stream_result calls = Returns None"
    proof (cases "calls = []")
      case True
      then show ?thesis by (simp add: stream_result_def)
    next
      case False
      with all have "completed (last calls)" by simp
      then have "producer_of (returned (last calls)) = Returns None"
        by (cases "returned (last calls)" rule: producer_of.cases) (simp_all add: completed_def)
      with False show ?thesis by (simp add: stream_result_def)
    qed
    with len all show ?thesis
      by (simp add: pipe delivered_all_completed)
  qed
  have five: "length calls = Suc k
            \<and> (\<forall>j<k. completed (calls ! j))
            \<and> sent pipe = map (\<lambda>c. fst (returned c)) (take k calls)
            \<and> finish pipe = Some (Failed e)"
    if k: "k < length calls" and failed: "snd (returned (calls ! k)) = Some e" for k e
  proof -
    from k failed have len: "length calls = Suc k"
      unfolding calls by (rule pass_error_is_last)
    have before: "\<forall>j<k. completed (calls ! j)"
      using pass_completed [of _ ctx opts 0 "runners c" prompt w] len
      unfolding calls by simp
    from len have split: "calls = take k calls @ [calls ! k]"
      by (metis lessI take_Suc_conv_app_nth take_all order_refl)
    from before len have "\<forall>c \<in> set (take k calls). completed c"
      by (intro take_all_completed) simp_all
    then have "delivered (take k calls) = map (\<lambda>c. fst (returned c)) (take k calls)"
      by (rule delivered_all_completed)
    with failed have "delivered (take k calls @ [calls ! k]) = map (\<lambda>c. fst (returned c)) (take k calls)"
      by (simp add: delivered_snoc)
    with split have sent: "sent pipe = map (\<lambda>c. fst (returned c)) (take k calls)"
      by (simp add: pipe)
    from last_of_length [OF len] have "calls \<noteq> []" "last calls = calls ! k"
      by simp_all
    with failed have "stream_result calls = Returns (Some e)"
      by (simp add: stream_result_def producer_of_error)
    then have "finish pipe = Some (Failed e)" by (simp add: pipe)
    with len before sent show ?thesis by simp
  qed
  from one two three four five show ?thesis by blast
qed

theorem stream_order_witness:
  "map (map_option Text) (sent (the (fst (fst (RunStream scenario_chain background hello [] 0)))))
     = [Some ''HELLO'', Some ''HELLO!'']
   \<and> finish (the (fst (fst (RunStream scenario_chain background hello [] 0)))) = Some Completed
   \<and> sent (the (fst (fst (RunStream failing_chain background hello [] 0))))
     = [Some (text_generation ''HELLO'')]
   \<and> finish (the (fst (fst (RunStream failing_chain background hello [] 0))))
     = Some (Failed ErrProvider)"
proof -
  let ?c0 = "\<lparr>step_no = 0, ctx_seen = background 0, given = hello,
               returned = (Some (text_generation ''HELLO''), None)\<rparr>"
  let ?c1 = "\<lparr>step_no = Suc 0, ctx_seen = background (Suc 0),
               given = NewPrompt (Generation.Messages (text_generation ''HELLO'')),
               returned = (Some (text_generation ''HELLO!''), None)\<rparr>"
  let ?f1 = "\<lparr>step_no = Suc 0, ctx_seen = background (Suc 0),
               given = NewPrompt (Generation.Messages (text_generation ''HELLO'')),
               returned = (None, Some ErrProvider)\<rparr>"
  let ?p = "the (fst (fst (RunStream scenario_chain background hello [] 0)))"
  let ?q = "the (fst (fst (RunStream failing_chain background hello [] 0)))"
  have s: "RunStream scenario_chain background hello [] 0 = ((Some ?p, None), [?c0, ?c1], Suc (Suc 0))"
    by (simp add: scenario_RunStream)
  have f: "RunStream failing_chain background hello [] 0 = ((Some ?q, None), [?c0, ?f1], Suc (Suc 0))"
    by (simp add: failing_RunStream)
  have all: "\<forall>c \<in> set [?c0, ?c1]. completed c" by (simp add: completed_def)
  from stream_order [OF s] all
  have "sent ?p = map (\<lambda>c. fst (returned c)) [?c0, ?c1] \<and> finish ?p = Some Completed"
    by blast
  then have ok: "map (map_option Text) (sent ?p) = [Some ''HELLO'', Some ''HELLO!'']"
      "finish ?p = Some Completed"
    by (simp_all add: Text_text_generation)
  have "Suc 0 < length [?c0, ?f1] \<and> snd (returned ([?c0, ?f1] ! Suc 0)) = Some ErrProvider"
    by simp
  with stream_order [OF f]
  have "sent ?q = map (\<lambda>c. fst (returned c)) (take (Suc 0) [?c0, ?f1])
      \<and> finish ?q = Some (Failed ErrProvider)"
    by blast
  then have "sent ?q = [Some (text_generation ''HELLO'')]" "finish ?q = Some (Failed ErrProvider)"
    by simp_all
  with ok show ?thesis by blast
qed

text \<open>
  C5, as stated, fails: \<^verbatim>\<open>RunStream\<close> never reads the context, it only passes it on.
  With a context that is cancelled after the first step has completed and before the
  second one starts, the second step is invoked all the same, and finds the context
  cancelled.
\<close>

theorem cancellation_checked_counterexample:
  "cancel_after_first 1 = Canceled
   \<and> map step_no (invocations (RunStream scenario_chain cancel_after_first hello [] 0)) = [0, 1]
   \<and> map ctx_seen (invocations (RunStream scenario_chain cancel_after_first hello [] 0))
       = [Active, Canceled]"
  by (simp add: scenario_RunStream invocations_def cancel_after_first_def)

text \<open>
  C5, amended. In streaming execution the producer makes no cancellation check of its
  own: it passes the governing context to every step. If the steps before step \<open>k\<close>
  have completed, step \<open>k\<close> is invoked whatever the state of the context is at that
  moment, cancelled or not, and is given the context in that state; the steps completed
  before still deliver their values.
\<close>

theorem cancellation_left_to_steps:
  assumes stream: "RunStream c ctx prompt opts w = ((Some pipe, e0), calls, w')"
    and k: "k < length (runners c)"
    and before: "k \<le> length calls" "\<forall>j<k. completed (calls ! j)"
  shows "k < length calls \<and> step_no (calls ! k) = k \<and> ctx_seen (calls ! k) = ctx k
       \<and> take k (sent pipe) = map (\<lambda>c. fst (returned c)) (take k calls)"
proof -
  let ?calls = "fst (pass ctx opts 0 (runners c) prompt w)"
  from stream have calls: "calls = ?calls"
    by (simp add: RunStream_pass)
  from stream have pipe: "pipe = \<lparr>sent = delivered calls,
      finish = Some (terminal_of (stream_result calls))\<rparr>"
    by (auto simp: RunStream_pass)
  have invoked: "k < length calls"
  proof (rule ccontr)
    assume "\<not> k < length calls"
    with before have len: "length calls = k" by simp
    with k have "length ?calls < length (runners c)" by (simp add: calls)
    from pass_stops_early [OF this] have "calls \<noteq> []" "\<not> completed (last calls)"
      by (simp_all add: calls)
    moreover from this(1) len obtain k' where k': "k = Suc k'"
      by (cases k) auto
    from last_of_length [of calls k'] len k' before(2) have "completed (last calls)"
      by simp
    ultimately show False by simp
  qed
  from invoked pass_step_no [of ctx opts 0 "runners c" prompt w]
  have "step_no (calls ! k) = k"
    unfolding calls by (metis add_0 length_map nth_map nth_upt)
  moreover from invoked pass_ctx_seen [of ctx opts 0 "runners c" prompt w]
  have "ctx_seen (calls ! k) = ctx k"
    unfolding calls by (metis add_0 length_map nth_map nth_upt)
  moreover have "take k (sent pipe) = map (\<lambda>c. fst (returned c)) (take k calls)"
  proof -
    from before have "\<forall>c \<in> set (take k calls). completed c"
      by (rule take_all_completed)
    then have d: "delivered (take k calls) = map (\<lambda>c. fst (returned c)) (take k calls)"
      by (rule delivered_all_completed)
    have "delivered calls = delivered (take k calls) @ delivered (drop k calls)"
      by (metis append_take_drop_id delivered_append)
    with d before(1) show ?thesis by (simp add: pipe)
  qed
  ultimately show ?thesis using invoked by simp
qed

theorem cancellation_left_to_steps_witness:
  "step_no (invocations (RunStream scenario_chain cancel_after_first hello [] 0) ! 1) = 1
   \<and> ctx_seen (invocations (RunStream scenario_chain cancel_after_first hello [] 0) ! 1) = Canceled
   \<and> take 1 (sent (the (fst (fst (RunStream scenario_chain cancel_after_first hello [] 0)))))
       = [Some (text_generation ''HELLO'')]"
proof -
  let ?c0 = "\<lparr>step_no = 0, ctx_seen = cancel_after_first 0, given = hello,
               returned = (Some (text_generation ''HELLO''), None)\<rparr>"
  let ?c1 = "\<lparr>step_no = Suc 0, ctx_seen = cancel_after_first (Suc 0),
               given = NewPrompt (Generation.Messages (text_generation ''HELLO'')),
               returned = (Some (text_generation ''HELLO!''), None)\<rparr>"
  let ?p = "the (fst (fst (RunStream scenario_chain cancel_after_first hello [] 0)))"
  have s: "RunStream scenario_chain cancel_after_first hello [] 0
      = ((Some ?p, None), [?c0, ?c1], Suc (Suc 0))"
    by (simp add: scenario_RunStream)
  have k: "Suc 0 < length (runners scenario_chain)"
    by (simp add: scenario_chain_def NewChain_def)
  have b1: "Suc 0 \<le> length [?c0, ?c1]" by simp
  have b2: "\<forall>j<Suc 0. completed ([?c0, ?c1] ! j)" by (simp add: completed_def)
  from cancellation_left_to_steps [OF s k b1 b2]
  show ?thesis
    by (simp add: scenario_RunStream invocations_def cancel_after_first_def)
qed

text \<open>
  C6. On a chain of zero steps and any prompt, \<^verbatim>\<open>Run\<close> in silent mode returns
  \<^verbatim>\<open>(nil, nil)\<close> without calling anything. In verbose mode, the default of
  \<^verbatim>\<open>NewChain\<close>, the loop leaves \<^verbatim>\<open>finalResult\<close> nil and \<^verbatim>\<open>finalResult.Text()\<close> is a call
  through a nil pointer: \<^verbatim>\<open>Run\<close> panics.
\<close>

theorem empty_chain_verbose_panics:
  "Run (NewChain []) ctx prompt opts w = (Panics, [], w)
   \<and> Run (NewChainSilent []) ctx prompt opts w = (Returns (None, None), [], w)"
  by (simp add: Run_def runVerbose_def runSilent_def NewChain_def NewChainSilent_def)

text \<open>
  C7. For the chain of the two steps "upper case" and "append an exclamation mark" and
  the input text "hello", blocking \<^verbatim>\<open>Run\<close> (verbose, and silent as well) returns a
  generation whose text is "HELLO!", and \<^verbatim>\<open>RunStream\<close> emits exactly two values, with
  the texts "HELLO" and "HELLO!" in this order, and completes.
\<close>

theorem scenario_hello:
  "fst (Run scenario_chain background hello [] 0) = Returns (Some (text_generation ''HELLO!''), None)
   \<and> Text (text_generation ''HELLO!'') = ''HELLO!''
   \<and> fst (Run (SetVerbose False scenario_chain) background hello [] 0)
       = Returns (Some (text_generation ''HELLO!''), None)
   \<and> fst (RunStream scenario_chain background hello [] 0)
       = (Some \<lparr>sent = [Some (text_generation ''HELLO''), Some (text_generation ''HELLO!'')],
                finish = Some Completed\<rparr>, None)
   \<and> map Text [text_generation ''HELLO'', text_generation ''HELLO!''] = [''HELLO'', ''HELLO!'']"
proof -
  have "runSilent (SetVerbose False scenario_chain) = runSilent scenario_chain"
    by (simp add: runSilent_def SetVerbose_def fun_eq_iff)
  then show ?thesis
    by (simp add: Run_def scenario_runVerbose scenario_runSilent scenario_RunStream
        Text_text_generation SetVerbose_def)
qed

text \<open>
  C10. The call of \<^verbatim>\<open>RunStream\<close> itself returns a handle and a nil error, for every
  chain, context, prompt and options; an error returned by a step is not the error of
  the call but the terminal event of the handle.
\<close>

theorem RunStream_returns_handle:
  "\<exists>pipe. fst (RunStream c ctx prompt opts w) = (Some pipe, None)
     \<and> (\<forall>k e. k < length (invocations (RunStream c ctx prompt opts w))
              \<and> snd (returned (invocations (RunStream c ctx prompt opts w) ! k)) = Some e
            \<longrightarrow> finish pipe = Some (Failed e))"
proof -
  let ?calls = "fst (pass ctx opts 0 (runners c) prompt w)"
  let ?pipe = "\<lparr>sent = delivered ?calls, finish = Some (terminal_of (stream_result ?calls))\<rparr>"
  have "finish ?pipe = Some (Failed e)"
    if k: "k < length ?calls" and failed: "snd (returned (?calls ! k)) = Some e" for k e
  proof -
    from k failed have len: "length ?calls = Suc k" by (rule pass_error_is_last)
    from last_of_length [OF this] have "?calls \<noteq> []" "last ?calls = ?calls ! k"
      by simp_all
    with failed show ?thesis
      by (simp add: stream_result_def producer_of_error)
  qed
  then have "\<forall>k e. k < length ?calls \<and> snd (returned (?calls ! k)) = Some e
      \<longrightarrow> finish ?pipe = Some (Failed e)"
    by blast
  then show ?thesis
    by (intro exI [of _ ?pipe]) (simp add: RunStream_pass invocations_def)
qed

theorem RunStream_returns_handle_witness:
  "snd (fst (RunStream failing_chain background hello [] 0)) = None
   \<and> map_option finish (fst (fst (RunStream failing_chain background hello [] 0)))
       = Some (Some (Failed ErrProvider))"
proof -
  from RunStream_returns_handle [of failing_chain background hello "[]" 0]
  obtain pipe where p: "fst (RunStream failing_chain background hello [] 0) = (Some pipe, None)"
    and f: "\<forall>k e. k < length (invocations (RunStream failing_chain background hello [] 0))
              \<and> snd (returned (invocations (RunStream failing_chain background hello [] 0) ! k)) = Some e
            \<longrightarrow> finish pipe = Some (Failed e)"
    by blast
  from f [rule_format, of "Suc 0" ErrProvider] have "finish pipe = Some (Failed ErrProvider)"
    by (simp add: failing_RunStream invocations_def)
  with p show ?thesis by simp
qed

end
